theory Spec2Isabelle
  imports Complex_Main "HOL-Library.Sublist"
begin

section \<open>Plasmid redesign tool: shallow embedding of \<^verbatim>\<open>Assignment1_sol.py\<close>\<close>

text \<open>
  Python strings are modelled as \<^typ>\<open>string\<close> (lists of 8-bit characters), Python's
  unbounded integers as \<^typ>\<open>int\<close>, and indices that the code only ever produces as
  non-negative values (\<^verbatim>\<open>range\<close> variables, results of \<^verbatim>\<open>find\<close>) as \<^typ>\<open>nat\<close>.
  An exception that leaves a function is a value \<open>Inl e\<close> of the result type.
\<close>

datatype error = ValueError | ZeroDivisionError

subsection \<open>The pattern table\<close>

text \<open>
  \<^verbatim>\<open>RESTRICTION_SITES\<close> is a dict literal. A Python dict iterates in insertion order, so
  the table is an association list in the order of the literal.
\<close>

definition RESTRICTION_SITES :: "(string \<times> string) list" where
  "RESTRICTION_SITES =
    [(''EcoRI'', ''GAATTC''),
     (''BamHI'', ''GGATCC''),
     (''HindIII'', ''AAGCTT''),
     (''PstI'', ''CTGCAG''),
     (''KpnI'', ''GGTACC''),
     (''SacI'', ''GAGCTC''),
     (''SalI'', ''GTCGAC''),
     (''XbaI'', ''TCTAGA''),
     (''NotI'', ''GCGGCCGC''),
     (''SmaI'', ''CCCGGG'')]"

subsection \<open>String primitives of Python used by the code\<close>

text \<open>
  \<^verbatim>\<open>str.upper\<close> on the ASCII range: the letters a..z (codes 97..122) move down by 32.
  Sequences and design lines are taken to be ASCII text; a character outside the ASCII
  range is left as it is and is neither a letter nor whitespace.
\<close>

definition upper_char :: "char \<Rightarrow> char" where
  "upper_char c =
    (let n = (of_char c :: nat) in if 97 \<le> n \<and> n \<le> 122 then char_of (n - 32) else c)"

definition upper :: "string \<Rightarrow> string" where
  "upper s = map upper_char s"

text \<open>
  \<^verbatim>\<open>s[i:j]\<close> with step 1: a negative bound counts from the end, and bounds are then
  clipped to \<open>0 .. len(s)\<close>; the slice is empty when the lower bound is not below the upper.
\<close>

definition py_norm :: "int \<Rightarrow> int \<Rightarrow> int" where
  "py_norm n k = (if k < 0 then max 0 (k + n) else min k n)"

definition py_slice :: "string \<Rightarrow> int \<Rightarrow> int \<Rightarrow> string" where
  "py_slice s i j =
    (let n = int (length s); a = py_norm n i; b = py_norm n j
     in take (nat (b - a)) (drop (nat a) s))"

text \<open>
  \<^verbatim>\<open>s.find(sub, start)\<close> for \<open>start \<ge> 0\<close>: the lowest index \<open>i \<ge> start\<close> with
  \<open>s[i:i+len(sub)] == sub\<close>, and \<open>-1\<close> (here \<open>None\<close>) when there is none. The empty pattern
  occurs at every index up to and including \<open>len(s)\<close>.
\<close>

definition occurs_at :: "string \<Rightarrow> string \<Rightarrow> nat \<Rightarrow> bool" where
  "occurs_at site s i \<longleftrightarrow> i + length site \<le> length s \<and> take (length site) (drop i s) = site"

definition find_from :: "string \<Rightarrow> string \<Rightarrow> nat \<Rightarrow> nat option" where
  "find_from s site start = List.find (occurs_at site s) [start..<Suc (length s)]"

text \<open>
  \<^verbatim>\<open>str.strip()\<close> removes leading and trailing whitespace. On the ASCII range Python's
  whitespace characters are the codes 9..13, 28..31 and 32.
\<close>

definition is_space :: "char \<Rightarrow> bool" where
  "is_space c =
    (let n = (of_char c :: nat) in (9 \<le> n \<and> n \<le> 13) \<or> (28 \<le> n \<and> n \<le> 32))"

definition strip :: "string \<Rightarrow> string" where
  "strip s = rev (dropWhile is_space (rev (dropWhile is_space s)))"

text \<open>\<^verbatim>\<open>s.split(d)\<close> for a one-character separator: never an empty list of fields.\<close>

fun split_on :: "char \<Rightarrow> string \<Rightarrow> string list" where
  "split_on d [] = [[]]"
| "split_on d (c # cs) =
    (if c = d then [] # split_on d cs
     else (case split_on d cs of [] \<Rightarrow> [[c]] | w # ws \<Rightarrow> (c # w) # ws))"

subsection \<open>\<^verbatim>\<open>parse_design_file\<close>\<close>

text \<open>
  The file object is iterated line by line; the model takes the list of lines. The state
  of the loop is the triple \<open>(allowed_sites, required_markers, required_ori)\<close> that the
  function returns. Unpacking \<^verbatim>\<open>key, value = [...]\<close> raises \<^verbatim>\<open>ValueError\<close> unless the
  list has exactly two elements.
\<close>

type_synonym design = "string set \<times> string set \<times> string option"

fun parse_line :: "design \<Rightarrow> string \<Rightarrow> error + design" where
  "parse_line (allowed_sites, required_markers, required_ori) line =
    (if strip line = [] then Inr (allowed_sites, required_markers, required_ori)
     else (case map strip (split_on CHR '','' line) of
         [key, val] \<Rightarrow>
           (if suffix ''_site'' key then Inr (insert val allowed_sites, required_markers, required_ori)
            else if suffix ''_gene'' key then Inr (allowed_sites, insert val required_markers, required_ori)
            else if prefix ''ori'' key then Inr (allowed_sites, required_markers, Some val)
            else Inr (allowed_sites, required_markers, required_ori))
       | _ \<Rightarrow> Inl ValueError))"

fun parse_lines :: "design \<Rightarrow> string list \<Rightarrow> error + design" where
  "parse_lines st [] = Inr st"
| "parse_lines st (line # rest) =
    (case parse_line st line of Inl e \<Rightarrow> Inl e | Inr st' \<Rightarrow> parse_lines st' rest)"

definition parse_design_file :: "string list \<Rightarrow> error + design" where
  "parse_design_file lines = parse_lines ({}, {}, None) lines"

subsection \<open>\<^verbatim>\<open>detect_ori\<close>\<close>

text \<open>
  The GC fraction \<^verbatim>\<open>(fragment.count("G") + fragment.count("C")) / window\<close> is a Python
  float. True division of two integers is correctly rounded, hence monotone, and two
  fractions \<open>a / w\<close> and \<open>b / w\<close> with \<open>a \<noteq> b\<close> and \<open>|a|, |b| \<le> |w| < 2^53\<close> differ by more
  than one unit in the last place, so the comparison \<^verbatim>\<open>gc < min_gc\<close> of the code has the
  outcome of the comparison of the exact quotients. The model computes with the exact
  quotients in \<^typ>\<open>rat\<close>; the initial \<^verbatim>\<open>min_gc = 1.0\<close> is the rational 1.
\<close>

definition gc_fraction :: "string \<Rightarrow> int \<Rightarrow> nat \<Rightarrow> rat" where
  "gc_fraction seq window i =
    (let fragment = py_slice seq (int i) (int i + window)
     in of_nat (count_list fragment CHR ''G'' + count_list fragment CHR ''C'') / of_int window)"

text \<open>
  The body of the \<^verbatim>\<open>for\<close> loop over the offsets, with the pair \<open>(min_gc, ori_start)\<close> as
  its state. The division raises \<^verbatim>\<open>ZeroDivisionError\<close> when the window is 0.
\<close>

fun ori_loop :: "string \<Rightarrow> int \<Rightarrow> nat list \<Rightarrow> rat \<times> nat \<Rightarrow> error + (rat \<times> nat)" where
  "ori_loop seq window [] st = Inr st"
| "ori_loop seq window (i # rest) (min_gc, ori_start) =
    (if window = 0 then Inl ZeroDivisionError
     else (let gc = gc_fraction seq window i
           in if gc < min_gc then ori_loop seq window rest (gc, i)
              else ori_loop seq window rest (min_gc, ori_start)))"

definition detect_ori :: "string \<Rightarrow> int \<Rightarrow> error + (int \<times> int)" where
  "detect_ori sequence window =
    (let seq = upper sequence
     in (case ori_loop seq window [0..<nat (int (length seq) - window)] (1, 0) of
           Inl e \<Rightarrow> Inl e
         | Inr (min_gc, ori_start) \<Rightarrow> Inr (int ori_start, int ori_start + window)))"

subsection \<open>\<^verbatim>\<open>remove_disallowed_sites\<close>\<close>

text \<open>The inner \<^verbatim>\<open>for start, end in protected_regions\<close> loop with its \<^verbatim>\<open>break\<close>.\<close>

definition overlaps_protected :: "nat \<Rightarrow> nat \<Rightarrow> (int \<times> int) list \<Rightarrow> bool" where
  "overlaps_protected idx n protected_regions =
    list_ex (\<lambda>(start, end). int idx < end \<and> int idx + int n > start) protected_regions"

text \<open>
  The \<^verbatim>\<open>while True\<close> loop for one recognition site, with \<open>(seq, search_pos)\<close> as its
  state. After a deletion the cursor \<^verbatim>\<open>search_pos\<close> keeps its value. The loop need not end
  (an empty site that is found outside every protected region is deleted forever), so
  not returning is the value \<open>None\<close>.
\<close>

partial_function (option) scan_site ::
  "string \<Rightarrow> (int \<times> int) list \<Rightarrow> string \<Rightarrow> nat \<Rightarrow> string option" where
  "scan_site site protected_regions seq search_pos =
    (case find_from seq site search_pos of
       None \<Rightarrow> Some seq
     | Some idx \<Rightarrow>
         if overlaps_protected idx (length site) protected_regions
         then scan_site site protected_regions seq (idx + 1)
         else scan_site site protected_regions (take idx seq @ drop (idx + length site) seq) search_pos)"

declare scan_site.simps [code]

text \<open>
  The outer \<^verbatim>\<open>for enzyme, site in RESTRICTION_SITES.items()\<close> loop, for any table, and the
  function itself, which runs it on the table of the module.
\<close>

fun remove_sites ::
  "(string \<times> string) list \<Rightarrow> string set \<Rightarrow> (int \<times> int) list \<Rightarrow> string \<Rightarrow> string option" where
  "remove_sites [] allowed_sites protected_regions seq = Some seq"
| "remove_sites ((enzyme, site) # rest) allowed_sites protected_regions seq =
    (if enzyme \<in> allowed_sites then remove_sites rest allowed_sites protected_regions seq
     else (case scan_site site protected_regions seq 0 of
         None \<Rightarrow> None
       | Some seq' \<Rightarrow> remove_sites rest allowed_sites protected_regions seq'))"

definition remove_disallowed_sites ::
  "string \<Rightarrow> string set \<Rightarrow> (int \<times> int) list \<Rightarrow> string option" where
  "remove_disallowed_sites sequence allowed_sites protected_regions =
    remove_sites RESTRICTION_SITES allowed_sites protected_regions sequence"

subsection \<open>Notions used to state the properties\<close>

text \<open>
  The number of symbols of a string that are G or C in either case, and the GC fraction of
  the window of length \<open>w\<close> that starts at offset \<open>i\<close> of a sequence, read without regard
  to case.
\<close>

definition gc_count_ci :: "string \<Rightarrow> nat" where
  "gc_count_ci s =
    length (filter (\<lambda>c. c = CHR ''G'' \<or> c = CHR ''g'' \<or> c = CHR ''C'' \<or> c = CHR ''c'') s)"

definition window_gc :: "string \<Rightarrow> nat \<Rightarrow> nat \<Rightarrow> rat" where
  "window_gc s w i = of_nat (gc_count_ci (take w (drop i s))) / of_nat w"




text \<open>The entries of a table that \<^verbatim>\<open>remove_disallowed_sites\<close> does not skip.\<close>

definition disallowed :: "string set \<Rightarrow> (string \<times> string) list \<Rightarrow> (string \<times> string) list" where
  "disallowed allowed_sites table = filter (\<lambda>(enzyme, site). enzyme \<notin> allowed_sites) table"

text \<open>
  A design line that sets the ORI label: two fields, a key that ends neither with
  \<open>_site\<close> nor with \<open>_gene\<close> and starts with \<open>ori\<close>.
\<close>

definition declares_ori :: "string \<Rightarrow> bool" where
  "declares_ori line =
    (case map strip (split_on CHR '','' line) of
       [key, val] \<Rightarrow> \<not> suffix ''_site'' key \<and> \<not> suffix ''_gene'' key \<and> prefix ''ori'' key
     | _ \<Rightarrow> False)"

section \<open>The design file\<close>

subsection \<open>Auxiliary facts\<close>

lemma parse_line_error: "parse_line st l = Inl e \<Longrightarrow> e = ValueError"
  by (cases st) (auto split: if_splits list.splits)

lemma parse_line_malformed:
  "strip l \<noteq> [] \<Longrightarrow> length (split_on CHR '','' l) \<noteq> 2 \<Longrightarrow> parse_line st l = Inl ValueError"
  by (cases st) (auto split: list.splits)

lemma parse_lines_malformed:
  "l \<in> set ls \<Longrightarrow> strip l \<noteq> [] \<Longrightarrow> length (split_on CHR '','' l) \<noteq> 2
   \<Longrightarrow> parse_lines st ls = Inl ValueError"
proof (induction ls arbitrary: st)
  case Nil
  then show ?case by simp
next
  case (Cons a ls)
  show ?case
  proof (cases "parse_line st a")
    case (Inl e)
    then show ?thesis using parse_line_error[OF Inl] by simp
  next
    case (Inr st')
    have "a \<noteq> l" using Inr Cons.prems parse_line_malformed[of l st] by auto
    then have "l \<in> set ls" using Cons.prems by simp
    then show ?thesis using Inr Cons by simp
  qed
qed

lemma parse_lines_append:
  "parse_lines st (xs @ ys) =
    (case parse_lines st xs of Inl e \<Rightarrow> Inl e | Inr st' \<Rightarrow> parse_lines st' ys)"
  by (induction xs arbitrary: st) (auto split: sum.splits)

lemma split_on_not_Nil: "split_on d s \<noteq> []"
  by (induction s) (auto split: list.splits)

lemma length_split_on: "length (split_on d s) = Suc (count_list s d)"
proof (induction s)
  case Nil
  then show ?case by simp
next
  case (Cons c s)
  then show ?case using split_on_not_Nil[of d s]
    by (cases "split_on d s") auto
qed

lemma strip_Nil_iff: "strip s = [] \<longleftrightarrow> (\<forall>c\<in>set s. is_space c)"
proof -
  have "(\<forall>c\<in>set (dropWhile is_space s). is_space c) \<longleftrightarrow> (\<forall>c\<in>set s. is_space c)"
    by (metis dropWhile_append3 dropWhile_eq_Nil_conv empty_iff empty_set
        in_set_conv_decomp_last)
  then show ?thesis by (simp add: strip_def)
qed

lemma comma_not_space: "\<not> is_space CHR '',''"
  by (simp add: is_space_def)

lemma two_fields_not_blank:
  assumes "map strip (split_on CHR '','' l) = [key, v]"
  shows "strip l \<noteq> []"
proof -
  have "length (split_on CHR '','' l) = 2"
    using assms by (metis length_map length_Cons list.size(3) numeral_2_eq_2)
  then have "count_list l CHR '','' = 1" by (simp add: length_split_on)
  then have "CHR '','' \<in> set l"
    using count_list_0_iff[of l "CHR '',''"] by auto
  then show ?thesis using comma_not_space by (auto simp: strip_Nil_iff)
qed

lemma parse_line_two_fields:
  assumes "map strip (split_on CHR '','' l) = [key, v]"
  shows "parse_line (a, m, r) l =
    Inr (if suffix ''_site'' key then (insert v a, m, r)
         else if suffix ''_gene'' key then (a, insert v m, r)
         else if prefix ''ori'' key then (a, m, Some v)
         else (a, m, r))"
  using assms two_fields_not_blank[OF assms] by simp

lemma parse_line_keeps_ori:
  "\<not> declares_ori y \<Longrightarrow> parse_line (a, m, r) y = Inr (a', m', r') \<Longrightarrow> r' = r"
  by (auto simp: declares_ori_def split: if_splits list.splits)

lemma parse_lines_keeps_ori:
  "\<forall>y\<in>set ys. \<not> declares_ori y \<Longrightarrow> parse_lines (a, m, r) ys = Inr (a', m', r') \<Longrightarrow> r' = r"
proof (induction ys arbitrary: a m r)
  case Nil
  then show ?case by simp
next
  case (Cons y ys)
  from Cons.prems(2) obtain a1 m1 r1 where s: "parse_line (a, m, r) y = Inr (a1, m1, r1)"
    and r: "parse_lines (a1, m1, r1) ys = Inr (a', m', r')"
    by (auto split: sum.splits simp del: parse_line.simps)
  have "r1 = r" using parse_line_keeps_ori[OF _ s] Cons.prems(1) by simp
  moreover have "r' = r1" using Cons.IH[OF _ r] Cons.prems(1) by simp
  ultimately show ?case by simp
qed

subsection \<open>Malformed lines\<close>

text \<open>
  C9. \<^verbatim>\<open>parse_design_file\<close> fails with a fatal error on every design file that has a
  non-blank line which does not split into exactly two comma-separated fields; the line is
  never skipped. The error is the \<^verbatim>\<open>ValueError\<close> that the unpacking of the field list
  raises, and nothing catches it.
\<close>

theorem parse_design_file_malformed_line:
  assumes "l \<in> set ls" and "strip l \<noteq> []" and "length (split_on CHR '','' l) \<noteq> 2"
  shows "parse_design_file ls = Inl ValueError"
  using assms by (simp add: parse_design_file_def parse_lines_malformed)

theorem parse_design_file_malformed_line_witness:
  "''just_one_field'' \<in> set [''ecoRI_site, EcoRI'', ''just_one_field'', ''ori_type, AT-rich'']
   \<and> strip ''just_one_field'' \<noteq> []
   \<and> length (split_on CHR '','' ''just_one_field'') \<noteq> 2
   \<and> parse_design_file [''ecoRI_site, EcoRI'', ''just_one_field'', ''ori_type, AT-rich'']
       = Inl ValueError"
proof -
  have h1: "''just_one_field'' \<in> set [''ecoRI_site, EcoRI'', ''just_one_field'', ''ori_type, AT-rich'']"
    by simp
  have h2: "strip ''just_one_field'' \<noteq> []" by code_simp
  have h3: "length (split_on CHR '','' ''just_one_field'') \<noteq> 2" by code_simp
  show ?thesis
    using h1 h2 h3 parse_design_file_malformed_line [OF h1 h2 h3] by simp
qed

subsection \<open>The three key tests\<close>

text \<open>
  C10. For a two-field line the key is tested for the suffix \<open>_site\<close>, then for the suffix
  \<open>_gene\<close>, then for the prefix \<open>ori\<close>, and the first test that succeeds decides where the
  value goes (first conjunct). A two-field line whose key passes none of the tests raises no
  error and leaves the result of the whole file as it is without the line (second
  conjunct). The ORI label that is returned is the value of the last line that declares one
  (third conjunct).
\<close>

theorem parse_design_file_key_tests:
  "(map strip (split_on CHR '','' l) = [key, v] \<and> parse_design_file xs = Inr (a, m, r)
      \<longrightarrow> parse_design_file (xs @ [l]) =
            Inr (if suffix ''_site'' key then (insert v a, m, r)
                 else if suffix ''_gene'' key then (a, insert v m, r)
                 else if prefix ''ori'' key then (a, m, Some v)
                 else (a, m, r)))
   \<and> (map strip (split_on CHR '','' l) = [key, v]
        \<and> \<not> suffix ''_site'' key \<and> \<not> suffix ''_gene'' key \<and> \<not> prefix ''ori'' key
      \<longrightarrow> parse_design_file (xs @ l # ys) = parse_design_file (xs @ ys))
   \<and> (map strip (split_on CHR '','' l) = [key, v] \<and> declares_ori l
        \<and> (\<forall>y\<in>set ys. \<not> declares_ori y)
        \<and> parse_design_file (xs @ l # ys) = Inr (a', m', r')
      \<longrightarrow> r' = Some v)"
proof (intro conjI impI)
  assume h: "map strip (split_on CHR '','' l) = [key, v] \<and> parse_design_file xs = Inr (a, m, r)"
  then show "parse_design_file (xs @ [l]) =
            Inr (if suffix ''_site'' key then (insert v a, m, r)
                 else if suffix ''_gene'' key then (a, insert v m, r)
                 else if prefix ''ori'' key then (a, m, Some v)
                 else (a, m, r))"
    using parse_line_two_fields[of l key v a m r]
    by (simp add: parse_design_file_def parse_lines_append del: parse_line.simps)
next
  assume h: "map strip (split_on CHR '','' l) = [key, v]
        \<and> \<not> suffix ''_site'' key \<and> \<not> suffix ''_gene'' key \<and> \<not> prefix ''ori'' key"
  have "parse_line st l = Inr st" for st
    using h parse_line_two_fields[of l key v] by (cases st) (simp del: parse_line.simps)
  then show "parse_design_file (xs @ l # ys) = parse_design_file (xs @ ys)"
    by (simp add: parse_design_file_def parse_lines_append split: sum.splits del: parse_line.simps)
next
  assume h: "map strip (split_on CHR '','' l) = [key, v] \<and> declares_ori l
        \<and> (\<forall>y\<in>set ys. \<not> declares_ori y)
        \<and> parse_design_file (xs @ l # ys) = Inr (a', m', r')"
  then obtain a0 m0 r0 where x: "parse_lines ({}, {}, None) xs = Inr (a0, m0, r0)"
    and y: "parse_lines (a0, m0, r0) (l # ys) = Inr (a', m', r')"
    by (auto simp: parse_design_file_def parse_lines_append split: sum.splits simp del: parse_lines.simps(2))
  from h have f: "map strip (split_on CHR '','' l) = [key, v]" and d: "declares_ori l"
    by simp_all
  have k: "\<not> suffix ''_site'' key \<and> \<not> suffix ''_gene'' key \<and> prefix ''ori'' key"
    using d unfolding declares_ori_def f by simp
  have "parse_line (a0, m0, r0) l = Inr (a0, m0, Some v)"
    using h k parse_line_two_fields[of l key v a0 m0 r0] by (simp del: parse_line.simps)
  then have "parse_lines (a0, m0, Some v) ys = Inr (a', m', r')"
    using y by (simp del: parse_line.simps)
  then show "r' = Some v"
    using parse_lines_keeps_ori[of ys a0 m0 "Some v" a' m' r'] h by simp
qed


theorem parse_design_file_key_tests_witness:
  "map strip (split_on CHR '','' ''ori_site, EcoRI'') = [''ori_site'', ''EcoRI'']
   \<and> parse_design_file [''kanR_gene, KanR''] = Inr ({}, {''KanR''}, None)
   \<and> parse_design_file [''kanR_gene, KanR'', ''ori_site, EcoRI'']
       = Inr ({''EcoRI''}, {''KanR''}, None)
   \<and> map strip (split_on CHR '','' ''colour, blue'') = [''colour'', ''blue'']
   \<and> parse_design_file [''ecoRI_site, EcoRI'', ''colour, blue'', ''ori_type, AT-rich'']
       = parse_design_file [''ecoRI_site, EcoRI'', ''ori_type, AT-rich'']
   \<and> map strip (split_on CHR '','' ''ori, second'') = [''ori'', ''second'']
   \<and> declares_ori ''ori, second'' \<and> \<not> declares_ori ''colour, blue''
   \<and> parse_design_file [''ori_type, first'', ''ori, second'', ''colour, blue'']
       = Inr ({}, {}, Some ''second'')"
proof -
  note t1 = parse_design_file_key_tests [where l = "''ori_site, EcoRI''" and key = "''ori_site''"
        and v = "''EcoRI''" and xs = "[''kanR_gene, KanR'']" and a = "{}" and m = "{''KanR''}"
        and r = None]
  have f1: "map strip (split_on CHR '','' ''ori_site, EcoRI'') = [''ori_site'', ''EcoRI'']"
    by code_simp
  have p1: "parse_design_file [''kanR_gene, KanR''] = Inr ({}, {''KanR''}, None)"
    by code_simp
  have k1: "suffix ''_site'' ''ori_site''" by code_simp
  have c1: "parse_design_file [''kanR_gene, KanR'', ''ori_site, EcoRI'']
       = Inr ({''EcoRI''}, {''KanR''}, None)"
    using mp [OF conjunct1 [OF t1] conjI [OF f1 p1]] k1 by simp
  note t2 = parse_design_file_key_tests [where l = "''colour, blue''" and key = "''colour''"
        and v = "''blue''" and xs = "[''ecoRI_site, EcoRI'']" and ys = "[''ori_type, AT-rich'']"]
  have f2: "map strip (split_on CHR '','' ''colour, blue'') = [''colour'', ''blue'']"
    by code_simp
  have k2: "\<not> suffix ''_site'' ''colour'' \<and> \<not> suffix ''_gene'' ''colour''
      \<and> \<not> prefix ''ori'' ''colour''"
    by code_simp
  have c2:
    "parse_design_file [''ecoRI_site, EcoRI'', ''colour, blue'', ''ori_type, AT-rich'']
       = parse_design_file [''ecoRI_site, EcoRI'', ''ori_type, AT-rich'']"
    using mp [OF conjunct1 [OF conjunct2 [OF t2]] conjI [OF f2 k2]] by simp
  have f3: "map strip (split_on CHR '','' ''ori, second'') = [''ori'', ''second'']"
    by code_simp
  have d3: "declares_ori ''ori, second''" by code_simp
  have n3: "\<not> declares_ori ''colour, blue''" by code_simp
  then have n3': "\<forall>y\<in>set [''colour, blue'']. \<not> declares_ori y" by simp
  have p3: "parse_design_file ([''ori_type, first''] @ ''ori, second'' # [''colour, blue''])
       = Inr ({}, {}, Some ''second'')"
    by code_simp
  note t3 = parse_design_file_key_tests [where l = "''ori, second''" and key = "''ori''"
        and v = "''second''" and xs = "[''ori_type, first'']" and ys = "[''colour, blue'']"
        and a' = "{}" and m' = "{}" and r' = "Some ''second''"]
  have l3: "Some ''second'' = Some ''second''"
    by (rule mp [OF conjunct2 [OF conjunct2 [OF t3]]
          conjI [OF f3 conjI [OF d3 conjI [OF n3' p3]]]])
  have c3: "parse_design_file [''ori_type, first'', ''ori, second'', ''colour, blue'']
       = Inr ({}, {}, Some ''second'')"
    using p3 by simp
  show ?thesis
    by (intro conjI) (rule f1 p1 c1 f2 c2 f3 d3 n3 c3)+
qed

section \<open>ORI detection\<close>

lemma length_upper: "length (upper s) = length s"
  by (simp add: upper_def)

subsection \<open>Upper-casing and the GC fraction of a window\<close>

lemma of_char_upper_char:
  "(of_char (upper_char c) :: nat) =
    (if 97 \<le> (of_char c :: nat) \<and> (of_char c :: nat) \<le> 122 then of_char c - 32 else of_char c)"
  by (auto simp: upper_char_def Let_def)

lemma upper_char_G: "upper_char c = CHR ''G'' \<longleftrightarrow> c = CHR ''G'' \<or> c = CHR ''g''"
proof -
  have "upper_char c = CHR ''G'' \<longleftrightarrow> (of_char (upper_char c) :: nat) = of_char CHR ''G''"
    by (simp only: of_char_eq_iff)
  also have "\<dots> \<longleftrightarrow> (of_char c :: nat) = of_char CHR ''G'' \<or> (of_char c :: nat) = of_char CHR ''g''"
    unfolding of_char_upper_char by auto
  also have "\<dots> \<longleftrightarrow> c = CHR ''G'' \<or> c = CHR ''g''"
    by (simp only: of_char_eq_iff)
  finally show ?thesis .
qed

lemma upper_char_C: "upper_char c = CHR ''C'' \<longleftrightarrow> c = CHR ''C'' \<or> c = CHR ''c''"
proof -
  have "upper_char c = CHR ''C'' \<longleftrightarrow> (of_char (upper_char c) :: nat) = of_char CHR ''C''"
    by (simp only: of_char_eq_iff)
  also have "\<dots> \<longleftrightarrow> (of_char c :: nat) = of_char CHR ''C'' \<or> (of_char c :: nat) = of_char CHR ''c''"
    unfolding of_char_upper_char by auto
  also have "\<dots> \<longleftrightarrow> c = CHR ''C'' \<or> c = CHR ''c''"
    by (simp only: of_char_eq_iff)
  finally show ?thesis .
qed

lemma window_gc_le_1: "0 < w \<Longrightarrow> window_gc s w i \<le> 1"
proof -
  assume w: "0 < w"
  have "gc_count_ci (take w (drop i s)) \<le> length (take w (drop i s))"
    unfolding gc_count_ci_def by (rule length_filter_le)
  also have "\<dots> \<le> w" by simp
  finally show ?thesis using w by (simp add: window_gc_def)
qed


lemma count_upper:
  "count_list (upper s) CHR ''G'' + count_list (upper s) CHR ''C'' = gc_count_ci s"
proof (induction s)
  case Nil
  show ?case by (simp add: upper_def gc_count_ci_def)
next
  case (Cons c s)
  have "c = CHR ''G'' \<or> c = CHR ''g'' \<or> c = CHR ''C'' \<or> c = CHR ''c''
        \<or> (upper_char c \<noteq> CHR ''G'' \<and> upper_char c \<noteq> CHR ''C'')"
    using upper_char_G[of c] upper_char_C[of c] by blast
  moreover have "\<not> (upper_char c = CHR ''G'' \<and> upper_char c = CHR ''C'')" by auto
  ultimately show ?case
    using Cons upper_char_G[of c] upper_char_C[of c]
    unfolding upper_def gc_count_ci_def
    by (cases "upper_char c = CHR ''G''"; cases "upper_char c = CHR ''C''") auto
qed

lemma py_slice_window:
  assumes "0 < w" and "int i + w \<le> int (length s)"
  shows "py_slice s (int i) (int i + w) = take (nat w) (drop i s)"
  using assms by (simp add: py_slice_def py_norm_def Let_def)


lemma gc_fraction_window:
  assumes "0 < w" and "int i + w \<le> int (length s)"
  shows "gc_fraction (upper s) w i = window_gc s (nat w) i"
proof -
  have "py_slice (upper s) (int i) (int i + w) = take (nat w) (drop i (upper s))"
    using assms by (intro py_slice_window) (simp_all add: length_upper)
  also have "\<dots> = upper (take (nat w) (drop i s))"
    by (simp add: upper_def take_map drop_map)
  finally have sl: "py_slice (upper s) (int i) (int i + w) = upper (take (nat w) (drop i s))" .
  have w: "(of_int w :: rat) = of_nat (nat w)" using assms(1) by simp
  show ?thesis
    unfolding gc_fraction_def window_gc_def Let_def sl w count_upper ..
qed

lemma ori_loop_spec:
  assumes "w \<noteq> 0"
  shows "\<exists>g s. ori_loop seq w xs (g0, s0) = Inr (g, s)
          \<and> (\<forall>i\<in>set xs. g \<le> gc_fraction seq w i)
          \<and> ((g = g0 \<and> s = s0)
               \<or> (\<exists>k<length xs. s = xs ! k \<and> g = gc_fraction seq w s \<and> g < g0
                     \<and> (\<forall>j<k. g < gc_fraction seq w (xs ! j))))"
proof (induction xs arbitrary: g0 s0)
  case Nil
  then show ?case by simp
next
  case (Cons x xs)
  let ?f = "gc_fraction seq w"
  show ?case
  proof (cases "?f x < g0")
    case True
    from Cons.IH[of "?f x" x] obtain g s where
      r: "ori_loop seq w xs (?f x, x) = Inr (g, s)"
      and m: "\<forall>i\<in>set xs. g \<le> ?f i"
      and c: "(g = ?f x \<and> s = x)
               \<or> (\<exists>k<length xs. s = xs ! k \<and> g = ?f s \<and> g < ?f x \<and> (\<forall>j<k. g < ?f (xs ! j)))"
      by blast
    have run: "ori_loop seq w (x # xs) (g0, s0) = Inr (g, s)"
      using assms True r by simp
    from c have gle: "g \<le> ?f x" by auto
    have "\<exists>k<length (x # xs). s = (x # xs) ! k \<and> g = ?f s \<and> g < g0
            \<and> (\<forall>j<k. g < ?f ((x # xs) ! j))"
    proof (rule disjE[OF c])
      assume "g = ?f x \<and> s = x"
      then show ?thesis using True by (intro exI[of _ 0]) simp
    next
      assume "\<exists>k<length xs. s = xs ! k \<and> g = ?f s \<and> g < ?f x \<and> (\<forall>j<k. g < ?f (xs ! j))"
      then obtain k where k: "k < length xs" "s = xs ! k" "g = ?f s" "g < ?f x"
        "\<forall>j<k. g < ?f (xs ! j)" by blast
      have "\<forall>j<Suc k. g < ?f ((x # xs) ! j)"
        using k(4,5) by (auto simp: nth_Cons split: nat.splits)
      then show ?thesis using k True by (intro exI[of _ "Suc k"]) auto
    qed
    then show ?thesis using run m gle by auto
  next
    case False
    from Cons.IH[of g0 s0] obtain g s where
      r: "ori_loop seq w xs (g0, s0) = Inr (g, s)"
      and m: "\<forall>i\<in>set xs. g \<le> ?f i"
      and c: "(g = g0 \<and> s = s0)
               \<or> (\<exists>k<length xs. s = xs ! k \<and> g = ?f s \<and> g < g0 \<and> (\<forall>j<k. g < ?f (xs ! j)))"
      by blast
    have run: "ori_loop seq w (x # xs) (g0, s0) = Inr (g, s)"
      using assms False r by simp
    from c have gle: "g \<le> g0" by auto
    then have gx: "g \<le> ?f x" using False by simp
    have "(g = g0 \<and> s = s0)
           \<or> (\<exists>k<length (x # xs). s = (x # xs) ! k \<and> g = ?f s \<and> g < g0
                 \<and> (\<forall>j<k. g < ?f ((x # xs) ! j)))"
    proof (rule disjE[OF c])
      assume "g = g0 \<and> s = s0"
      then show ?thesis by simp
    next
      assume "\<exists>k<length xs. s = xs ! k \<and> g = ?f s \<and> g < g0 \<and> (\<forall>j<k. g < ?f (xs ! j))"
      then obtain k where k: "k < length xs" "s = xs ! k" "g = ?f s" "g < g0"
        "\<forall>j<k. g < ?f (xs ! j)" by blast
      have "g < ?f x" using k(4) False by simp
      then have "\<forall>j<Suc k. g < ?f ((x # xs) ! j)"
        using k(5) by (auto simp: nth_Cons split: nat.splits)
      then have "\<exists>k<length (x # xs). s = (x # xs) ! k \<and> g = ?f s \<and> g < g0
                 \<and> (\<forall>j<k. g < ?f ((x # xs) ! j))"
        using k by (intro exI[of _ "Suc k"]) auto
      then show ?thesis by blast
    qed
    then show ?thesis using run m gx by auto
  qed
qed

subsection \<open>The window that is returned\<close>

text \<open>
  C5. For a window \<open>0 < window < len(sequence)\<close>, \<^verbatim>\<open>detect_ori\<close> returns without error the
  interval \<open>[b, b + window)\<close> for an offset \<open>b\<close> among the examined offsets
  \<open>0 .. len(sequence) - window - 1\<close>; the GC fraction of the window at \<open>b\<close>, counted without
  regard to case, is minimal among the windows at all examined offsets, and every window
  at a lower offset has a strictly greater fraction: \<open>b\<close> is the first offset of the minimum,
  and a later window with an equal fraction does not replace it.
\<close>

theorem detect_ori_first_minimum:
  assumes "0 < window" and "window < int (length sequence)"
  shows "\<exists>b. detect_ori sequence window = Inr (int b, int b + window)
          \<and> b < length sequence - nat window
          \<and> (\<forall>i < length sequence - nat window.
                window_gc sequence (nat window) b \<le> window_gc sequence (nat window) i)
          \<and> (\<forall>i < b. window_gc sequence (nat window) b < window_gc sequence (nat window) i)"
proof -
  let ?n = "length sequence - nat window"
  let ?f = "gc_fraction (upper sequence) window"
  let ?h = "window_gc sequence (nat window)"
  have n: "nat (int (length (upper sequence)) - window) = ?n"
    using assms by (simp add: length_upper nat_diff_distrib')
  have npos: "0 < ?n" using assms by linarith
  have fh: "?f i = ?h i" if "i < ?n" for i
    using that assms by (intro gc_fraction_window) linarith+
  have h1: "?h i \<le> 1" for i
    using assms(1) by (intro window_gc_le_1) simp
  from ori_loop_spec[of window "upper sequence" "[0..<?n]" 1 0] assms(1)
  obtain g s where run: "ori_loop (upper sequence) window [0..<?n] (1, 0) = Inr (g, s)"
    and low: "\<forall>i\<in>set [0..<?n]. g \<le> ?f i"
    and c: "(g = 1 \<and> s = 0)
             \<or> (\<exists>k<length [0..<?n]. s = [0..<?n] ! k \<and> g = ?f s \<and> g < 1
                   \<and> (\<forall>j<k. g < ?f ([0..<?n] ! j)))"
    by auto
  have res: "detect_ori sequence window = Inr (int s, int s + window)"
    using run by (simp add: detect_ori_def n)
  have lowh: "g \<le> ?h i" if "i < ?n" for i
    using low that fh by simp
  have "s < ?n \<and> g = ?h s \<and> (\<forall>j<s. g < ?h j)"
  proof (rule disjE[OF c])
    assume a: "g = 1 \<and> s = 0"
    have "?h 0 = 1" using lowh[OF npos] h1[of 0] a by simp
    then show ?thesis using a npos by simp
  next
    assume "\<exists>k<length [0..<?n]. s = [0..<?n] ! k \<and> g = ?f s \<and> g < 1
                   \<and> (\<forall>j<k. g < ?f ([0..<?n] ! j))"
    then obtain k where k: "k < ?n" "s = [0..<?n] ! k" "g = ?f s"
      "\<forall>j<k. g < ?f ([0..<?n] ! j)" by auto
    have sk: "s = k" using k(1,2) by simp
    have "\<forall>j<s. g < ?h j"
    proof (intro allI impI)
      fix j assume j: "j < s"
      then have jn: "j < ?n" using sk k(1) by simp
      have "g < ?f ([0..<?n] ! j)" using k(4) j sk by simp
      then show "g < ?h j" using jn fh by simp
    qed
    then show ?thesis using sk k(1,3) fh by simp
  qed
  then have a1: "s < ?n" and a2: "g = ?h s" and a3: "\<forall>j<s. g < ?h j" by blast+
  have "\<forall>i<?n. ?h s \<le> ?h i" using lowh a2 by blast
  moreover have "\<forall>i<s. ?h s < ?h i" using a3 a2 by blast
  ultimately show ?thesis using res a1 by blast
qed

theorem detect_ori_first_minimum_witness:
  "(0::int) < 2 \<and> 2 < int (length ''GGatGGATcg'')
   \<and> detect_ori ''GGatGGATcg'' 2 = Inr (2, 4)
   \<and> window_gc ''GGatGGATcg'' 2 2 = 0 \<and> window_gc ''GGatGGATcg'' 2 6 = 0
   \<and> window_gc ''GGatGGATcg'' 2 0 = 1 \<and> window_gc ''GGatGGATcg'' 2 1 = 1 / 2"
proof -
  have h1: "(0::int) < 2" by simp
  have h2: "2 < int (length ''GGatGGATcg'')" by simp
  obtain b where b: "detect_ori ''GGatGGATcg'' 2 = Inr (int b, int b + 2)"
    using detect_ori_first_minimum [OF h1 h2] by blast
  have e: "detect_ori ''GGatGGATcg'' 2 = Inr (2, 4)" by code_simp
  have "window_gc ''GGatGGATcg'' 2 2 = 0" "window_gc ''GGatGGATcg'' 2 6 = 0"
    "window_gc ''GGatGGATcg'' 2 0 = 1" "window_gc ''GGatGGATcg'' 2 1 = 1 / 2"
    by code_simp+
  then show ?thesis using h1 h2 e b by simp
qed

subsection \<open>A window that is not shorter than the sequence\<close>

text \<open>
  C3, as the code has it. The claim says that \<^verbatim>\<open>detect_ori\<close> fails with a fatal error when
  the sequence is not longer than the window. The code has no such check: the range of
  offsets is empty, the loop body never runs, and the initial offset 0 is returned with
  the window length added. A sequence of four symbols with the default window of 100 gives
  the interval \<open>(0, 100)\<close>.
\<close>

theorem detect_ori_short_sequence_returns:
  "int (length ''ACGT'') \<le> 100 \<and> detect_ori ''ACGT'' 100 = Inr (0, 100)"
  by code_simp

text \<open>
  C3, amended: for every sequence and window with \<open>len(sequence) \<le> window\<close>, \<^verbatim>\<open>detect_ori\<close>
  raises no error and returns the interval \<open>(0, window)\<close>.
\<close>

theorem detect_ori_window_not_shorter:
  "int (length sequence) \<le> window \<Longrightarrow> detect_ori sequence window = Inr (0, window)"
  by (simp add: detect_ori_def length_upper)

theorem detect_ori_window_not_shorter_witness:
  "int (length ''GATTACA'') \<le> 7 \<and> detect_ori ''GATTACA'' 7 = Inr (0, 7)"
proof -
  have h: "int (length ''GATTACA'') \<le> 7" by simp
  show ?thesis using h detect_ori_window_not_shorter [OF h] by simp
qed

section \<open>Removal of restriction sites\<close>

subsection \<open>The scans end, and delete only unprotected occurrences of disallowed sites\<close>











lemma remove_sites_disallowed:
  "remove_sites table allowed prot seq = remove_sites (disallowed allowed table) allowed prot seq"
  by (induction table arbitrary: seq) (auto simp: disallowed_def split: option.splits)

subsection \<open>Concrete sequences\<close>

text \<open>
  C1. The claim: the sequence returned by \<^verbatim>\<open>remove_disallowed_sites\<close> contains no occurrence
  of a pattern whose name is not allowed, unless the occurrence overlaps a protected
  interval, occurrences created by joining the flanks of a deletion included. The code
  scans each pattern once, in table order. On \<open>GAA GGATCC TTC\<close>, with nothing allowed and
  nothing protected, the EcoRI scan finds nothing, the BamHI scan deletes \<open>GGATCC\<close>, and the
  flanks join to the EcoRI site \<open>GAATTC\<close>, which is returned. The same happens when a
  protected interval lies elsewhere in the sequence.
\<close>

theorem remove_disallowed_sites_leaves_joined_site:
  "remove_disallowed_sites ''GAAGGATCCTTC'' {} [] = Some ''GAATTC''
   \<and> occurs_at ''GAATTC'' ''GAATTC'' 0
   \<and> overlaps_protected 0 (length ''GAATTC'') [] = False
   \<and> remove_disallowed_sites ''GAAGGATCCTTCAAAA'' {} [(12, 16)] = Some ''GAATTCAAAA''
   \<and> occurs_at ''GAATTC'' ''GAATTCAAAA'' 0
   \<and> overlaps_protected 0 (length ''GAATTC'') [(12, 16)] = False"
  by code_simp

text \<open>
  C2. The claim: a removed occurrence never overlaps a protected interval, and an occurrence
  of a disallowed pattern that lies inside a protected interval of the input is still at
  its position in the output. The code tests the current index of an occurrence against
  the intervals of the original sequence. On \<open>GAATTC GGATCC\<close> with \<open>[6, 12)\<close> protected, the
  BamHI site fills the protected interval; the EcoRI site before it is deleted, the BamHI
  site moves to index 0, where it no longer passes the overlap test, and is deleted too.
\<close>

theorem remove_disallowed_sites_deletes_protected_site:
  "occurs_at ''GGATCC'' ''GAATTCGGATCC'' 6
   \<and> overlaps_protected 6 (length ''GGATCC'') [(6, 12)]
   \<and> remove_disallowed_sites ''GAATTCGGATCC'' {} [(6, 12)] = Some []"
  by code_simp

text \<open>
  C4. The claim: a second run of \<^verbatim>\<open>remove_disallowed_sites\<close> on the output of a first run,
  with the same allowed names and protected regions, returns that output unchanged. The
  first run on \<open>GAA GGATCC TTC\<close> returns \<open>GAATTC\<close>; the second run deletes it.
\<close>

theorem remove_disallowed_sites_second_run_differs:
  "remove_disallowed_sites ''GAAGGATCCTTC'' {} [] = Some ''GAATTC''
   \<and> remove_disallowed_sites ''GAATTC'' {} [] = Some []"
  by code_simp

text \<open>
  C6. The claim: both operations match sequence symbols without regard to letter case; in
  particular \<^verbatim>\<open>remove_disallowed_sites\<close> removes the lower-case EcoRI site \<open>gaattc\<close>.
  \<^verbatim>\<open>detect_ori\<close> upper-cases the sequence before it counts, \<^verbatim>\<open>remove_disallowed_sites\<close>
  searches the sequence as it is: the upper-case site is removed, the lower-case one stays.
\<close>

theorem remove_disallowed_sites_keeps_lower_case_site:
  "remove_disallowed_sites ''AAAAGAATTCAAAA'' {} [] = Some ''AAAAAAAA''
   \<and> remove_disallowed_sites ''aaaagaattcaaaa'' {} [] = Some ''aaaagaattcaaaa''
   \<and> detect_ori ''ggggaaggaagg'' 2 = detect_ori ''GGGGAAGGAAGG'' 2"
  by code_simp

subsection \<open>Allowed patterns\<close>




subsection \<open>Order of the pattern table\<close>

text \<open>
  C8, as the code has it. The claim says that the output is the same for every iteration
  order of the entries of the pattern table. With the table in the order of the module the
  BamHI site of \<open>GGATCCCGGG\<close> is deleted first and \<open>CGGG\<close> is returned; with the table
  reversed the SmaI site is deleted first and \<open>GGAT\<close> is returned.
\<close>

theorem remove_sites_table_order_matters:
  "remove_sites RESTRICTION_SITES {} [] ''GGATCCCGGG'' = Some ''CGGG''
   \<and> remove_sites (rev RESTRICTION_SITES) {} [] ''GGATCCCGGG'' = Some ''GGAT''"
  by code_simp

text \<open>
  C8, amended: the output is determined by the order in which the table lists the entries
  whose names are not allowed; two orders of the table that agree on these entries, so that
  they differ only in where the allowed entries stand, give the same output.
\<close>

theorem remove_sites_order_of_disallowed:
  "disallowed allowed_sites t1 = disallowed allowed_sites t2 \<Longrightarrow>
   remove_sites t1 allowed_sites protected_regions seq
     = remove_sites t2 allowed_sites protected_regions seq"
  by (metis remove_sites_disallowed)

theorem remove_sites_order_of_disallowed_witness:
  "disallowed {''EcoRI''} RESTRICTION_SITES
     = disallowed {''EcoRI''} (tl RESTRICTION_SITES @ [hd RESTRICTION_SITES])
   \<and> remove_sites RESTRICTION_SITES {''EcoRI''} [] ''AAGAATTCGGATCCAA''
     = remove_sites (tl RESTRICTION_SITES @ [hd RESTRICTION_SITES]) {''EcoRI''} []
         ''AAGAATTCGGATCCAA''"
proof -
  have h: "disallowed {''EcoRI''} RESTRICTION_SITES
     = disallowed {''EcoRI''} (tl RESTRICTION_SITES @ [hd RESTRICTION_SITES])"
    by code_simp
  show ?thesis
    using h remove_sites_order_of_disallowed [OF h, of "[]" "''AAGAATTCGGATCCAA''"]
    by simp
qed

end
